theory Spec2Isabelle
  imports Main
begin

section \<open>The tables of schema.sql\<close>

text \<open>
  Each table is the list of its rows in insertion order; \<open>.first()\<close> of a query is
  \<open>find\<close> on that list and \<open>.all()\<close> is \<open>filter\<close>. Identifiers, times (seconds since
  the epoch) and scores are SQLite INTEGERs, modelled as \<open>int\<close>.
\<close>

datatype borrow_status = Active | Returned | Overdue

record item =
  i_id :: int
  i_name :: string
  risk_level :: string
  min_level_required :: int
  available :: int

record user =
  u_id :: int
  u_name :: string
  u_email :: string
  level :: int
  trust_score :: int

record subscription =
  s_user_id :: int
  plan :: string
  max_items :: int
  max_risk_level :: string
  expires_at :: "int option"

record borrow_record =
  b_id :: int
  user_id :: int
  item_id :: int
  borrowed_at :: int
  due_at :: int
  returned_at :: "int option"
  condition_notes :: "string option"
  qr_code :: string
  status :: borrow_status

text \<open>
  The persistent state: the four tables the borrow engine touches, the AUTOINCREMENT
  counter of \<open>borrow_records\<close>, and the KV entries \<open>item_availability:<id>\<close> of the
  availability cache (item id and cached answer).
\<close>

record db =
  items :: "item list"
  users :: "user list"
  subscriptions :: "subscription list"
  borrow_records :: "borrow_record list"
  borrow_seq :: int
  kv_availability :: "(int \<times> bool) list"

section \<open>Responses\<close>

text \<open>The messages passed to \<open>error(message, status)\<close>, with the values interpolated into them.\<close>

datatype message =
    Unauthorized
  | Invalid_JSON_body
  | Item_id_is_required
  | Duration_days_must_be_between_1_and_30
  | Item_not_found
  | Item_is_not_available_for_borrowing
  | Item_requires_level int int
  | Subscription_expired
  | Maximum_items_allowed int
  | Plan_does_not_allow string string
  | Invalid_borrow_ID
  | Borrow_record_not_found
  | Item_already_returned

datatype 'a response = Error message nat | Json 'a nat

datatype eligibility = Allowed | Denied message

section \<open>services/availability.ts\<close>

definition isItemAvailable :: "db \<Rightarrow> int \<Rightarrow> bool" where
  "isItemAvailable s itemId =
     (case find (\<lambda>i. i_id i = itemId) (items s) of
        None \<Rightarrow> False
      | Some i \<Rightarrow>
          if available i = 0 then False
          else (case find (\<lambda>b. item_id b = itemId \<and> status b = Active) (borrow_records s) of
                  None \<Rightarrow> True
                | Some activeBorrow \<Rightarrow> False))"

definition invalidateAvailabilityCache :: "int \<Rightarrow> db \<Rightarrow> db" where
  "invalidateAvailabilityCache itemId s =
     s\<lparr>kv_availability := filter (\<lambda>(k, v). k \<noteq> itemId) (kv_availability s)\<rparr>"

section \<open>routes/subscriptions.ts\<close>

text \<open>\<open>Array.prototype.indexOf\<close>: the position of the first occurrence, or -1.\<close>

fun indexOf :: "'a list \<Rightarrow> 'a \<Rightarrow> int" where
  "indexOf [] x = -1"
| "indexOf (y # ys) x =
     (if y = x then 0 else (let r = indexOf ys x in if r < 0 then -1 else r + 1))"

definition riskLevels :: "string list" where
  "riskLevels = [''low'', ''medium'', ''high'']"

text \<open>
  \<open>now_ms\<close> is the reading of \<open>Date.now()\<close> in milliseconds. The source compares the integer
  \<open>expires_at\<close> with the fraction \<open>Date.now() / 1000\<close>, which is the comparison
  \<open>expires_at * 1000 < now_ms\<close> on integers; a null or zero \<open>expires_at\<close> is falsy.
\<close>

definition canUserBorrowItem :: "db \<Rightarrow> int \<Rightarrow> int \<Rightarrow> string \<Rightarrow> eligibility" where
  "canUserBorrowItem s now_ms userId itemRiskLevel =
     (let sub = find (\<lambda>x. s_user_id x = userId) (subscriptions s);
          maxItems = (case sub of None \<Rightarrow> 1 | Some x \<Rightarrow> max_items x);
          maxRiskLevel = (case sub of None \<Rightarrow> ''low'' | Some x \<Rightarrow> max_risk_level x);
          isExpired = (case sub of None \<Rightarrow> False
                       | Some x \<Rightarrow> (case expires_at x of None \<Rightarrow> False
                                    | Some e \<Rightarrow> e \<noteq> 0 \<and> e * 1000 < now_ms));
          activeBorrows = filter (\<lambda>b. user_id b = userId \<and> status b = Active) (borrow_records s)
      in if isExpired then Denied Subscription_expired
         else if int (length activeBorrows) \<ge> maxItems then Denied (Maximum_items_allowed maxItems)
         else if indexOf riskLevels itemRiskLevel > indexOf riskLevels maxRiskLevel
           then Denied (Plan_does_not_allow maxRiskLevel itemRiskLevel)
         else Allowed)"

section \<open>services/progression.ts\<close>

definition updateTrustScore :: "int \<Rightarrow> int \<Rightarrow> db \<Rightarrow> int \<times> db" where
  "updateTrustScore userId delta s =
     (let s' = s\<lparr>users := map (\<lambda>u. if u_id u = userId
                     then u\<lparr>trust_score := max 0 (min 200 (trust_score u + delta))\<rparr> else u) (users s)\<rparr>
      in (case find (\<lambda>u. u_id u = userId) (users s') of
            None \<Rightarrow> (100, s')
          | Some u \<Rightarrow> (trust_score u, s')))"

section \<open>routes/borrows.ts: createBorrow\<close>

text \<open>
  The parsed JSON body of a borrow request (a field is \<open>None\<close> when the body leaves it
  out); the body itself is \<open>None\<close> when \<open>request.json()\<close> throws a SyntaxError.
\<close>

record borrow_body =
  body_item_id :: "int option"
  body_duration_days :: "int option"

text \<open>
  What a request reads from outside the database: \<open>Date.now()\<close> inside
  \<open>canUserBorrowItem\<close> and again before the insert (milliseconds), the database's
  \<open>unixepoch()\<close> that fills the column default of \<open>borrowed_at\<close> (seconds), and the first
  eight characters of \<open>crypto.randomUUID()\<close> in upper case.
\<close>

record borrow_env =
  clock_rules :: int
  clock_now :: int
  clock_db :: int
  uuid8 :: string

text \<open>The values computed before the first write.\<close>

record borrow_plan =
  p_user_id :: int
  p_item_id :: int
  p_item_name :: string
  p_due_at :: int
  p_qr_code :: string

record borrow_created =
  r_borrow_id :: int
  r_qr_code :: string
  r_due_at :: int
  r_item_name :: string

text \<open>Lines 84 to 132: validation, the reads and the eligibility checks. Nothing is written.\<close>

definition createBorrow_checks ::
  "borrow_env \<Rightarrow> int option \<Rightarrow> borrow_body option \<Rightarrow> db \<Rightarrow> (message \<times> nat) + borrow_plan" where
  "createBorrow_checks env userId body s =
     (case userId of
        None \<Rightarrow> Inl (Unauthorized, 401)
      | Some uid \<Rightarrow>
        if uid = 0 then Inl (Unauthorized, 401)
        else (case body of
          None \<Rightarrow> Inl (Invalid_JSON_body, 400)
        | Some bd \<Rightarrow>
          (let duration_days = (case body_duration_days bd of None \<Rightarrow> 7 | Some d \<Rightarrow> d) in
           case body_item_id bd of
             None \<Rightarrow> Inl (Item_id_is_required, 400)
           | Some iid \<Rightarrow>
             if iid = 0 then Inl (Item_id_is_required, 400)
             else if duration_days < 1 \<or> duration_days > 30
               then Inl (Duration_days_must_be_between_1_and_30, 400)
             else (case find (\<lambda>i. i_id i = iid) (items s) of
               None \<Rightarrow> Inl (Item_not_found, 404)
             | Some it \<Rightarrow>
               if \<not> isItemAvailable s iid then Inl (Item_is_not_available_for_borrowing, 409)
               else (case find (\<lambda>u. u_id u = uid) (users s) of
                 None \<Rightarrow> Inl (Item_requires_level (min_level_required it) 0, 403)
               | Some u \<Rightarrow>
                 if level u < min_level_required it
                   then Inl (Item_requires_level (min_level_required it) (level u), 403)
                 else (case canUserBorrowItem s (clock_rules env) uid (risk_level it) of
                   Denied reason \<Rightarrow> Inl (reason, 403)
                 | Allowed \<Rightarrow>
                     Inr \<lparr>p_user_id = uid, p_item_id = iid, p_item_name = i_name it,
                          p_due_at = clock_now env div 1000 + duration_days * 24 * 60 * 60,
                          p_qr_code = ''LOT-'' @ uuid8 env\<rparr>))))))"

text \<open>
  Lines 135 to 138: the INSERT. The row id is one more than the largest id the table has
  had, \<open>borrowed_at\<close> takes its column default, the other columns are null.
\<close>

definition last_row_id :: "db \<Rightarrow> int" where
  "last_row_id s = fold max (map b_id (borrow_records s)) (borrow_seq s)"

definition createBorrow_insert :: "borrow_env \<Rightarrow> borrow_plan \<Rightarrow> db \<Rightarrow> db" where
  "createBorrow_insert env p s =
     s\<lparr>borrow_records := borrow_records s @
          [\<lparr>b_id = last_row_id s + 1, user_id = p_user_id p, item_id = p_item_id p,
            borrowed_at = clock_db env, due_at = p_due_at p, returned_at = None,
            condition_notes = None, qr_code = p_qr_code p, status = Active\<rparr>],
       borrow_seq := last_row_id s + 1\<rparr>"

text \<open>Lines 141 to 144: the item is marked unavailable and its cache entry deleted.\<close>

definition createBorrow_mark :: "borrow_plan \<Rightarrow> db \<Rightarrow> db" where
  "createBorrow_mark p s =
     invalidateAvailabilityCache (p_item_id p)
       (s\<lparr>items := map (\<lambda>i. if i_id i = p_item_id p then i\<lparr>available := 0\<rparr> else i) (items s)\<rparr>)"

definition createBorrow ::
  "borrow_env \<Rightarrow> int option \<Rightarrow> borrow_body option \<Rightarrow> db \<Rightarrow> borrow_created response \<times> db" where
  "createBorrow env userId body s =
     (case createBorrow_checks env userId body s of
        Inl (m, code) \<Rightarrow> (Error m code, s)
      | Inr p \<Rightarrow>
          (let s1 = createBorrow_insert env p s;
               s2 = createBorrow_mark p s1
           in (Json \<lparr>r_borrow_id = borrow_seq s1, r_qr_code = p_qr_code p,
                     r_due_at = p_due_at p, r_item_name = p_item_name p\<rparr> 201, s2)))"

section \<open>routes/borrows.ts: returnItem\<close>

record return_body =
  body_condition_notes :: "string option"
  body_condition :: "string option"

text \<open>
  \<open>id\<close> is the path parameter, \<open>None\<close> when it is missing or not a number; \<open>now_ms\<close> is
  \<open>Date.now()\<close>. Every condition other than \<open>damaged\<close> takes the branch of a good return.
\<close>

definition or_null :: "string option \<Rightarrow> string option" where
  "or_null x = (case x of None \<Rightarrow> None | Some n \<Rightarrow> if n = [] then None else Some n)"

definition returnItem :: "int \<Rightarrow> int option \<Rightarrow> return_body option \<Rightarrow> db \<Rightarrow> string response \<times> db" where
  "returnItem now_ms ident body s =
     (case ident of
        None \<Rightarrow> (Error Invalid_borrow_ID 400, s)
      | Some bid \<Rightarrow>
        (case body of
           None \<Rightarrow> (Error Invalid_JSON_body 400, s)
         | Some bd \<Rightarrow>
           (let condition = (case body_condition bd of None \<Rightarrow> ''good'' | Some c \<Rightarrow> c) in
            case find (\<lambda>b. b_id b = bid) (borrow_records s) of
              None \<Rightarrow> (Error Borrow_record_not_found 404, s)
            | Some borrow \<Rightarrow>
              if status borrow = Returned then (Error Item_already_returned 400, s)
              else
                (let now = now_ms div 1000;
                     notes = or_null (body_condition_notes bd);
                     s1 = s\<lparr>borrow_records := map (\<lambda>b. if b_id b = bid
                            then b\<lparr>returned_at := Some now, status := Returned,
                                   condition_notes := notes\<rparr> else b) (borrow_records s)\<rparr>;
                     s2 = s1\<lparr>items := map (\<lambda>i. if i_id i = item_id borrow
                            then i\<lparr>available := 1\<rparr> else i) (items s1)\<rparr>;
                     s3 = invalidateAvailabilityCache (item_id borrow) s2;
                     s4 = (if condition = ''damaged''
                           then s3\<lparr>users := map (\<lambda>u. if u_id u = user_id borrow
                                  then u\<lparr>trust_score := trust_score u - 10\<rparr> else u) (users s3)\<rparr>
                           else s3\<lparr>users := map (\<lambda>u. if u_id u = user_id borrow \<and> trust_score u < 200
                                  then u\<lparr>trust_score := trust_score u + 2\<rparr> else u) (users s3)\<rparr>)
                 in (Json condition 200, s4)))))"

section \<open>routes/borrows.ts: getOverdueBorrows\<close>

text \<open>
  The UPDATE of the sweep, the number of rows it changes, and the rows the handler then
  returns: the overdue records joined with their item and user, ordered by \<open>due_at\<close>
  (SQL leaves the order of equal keys open; \<open>sort_key\<close> keeps table order).
\<close>

definition sweep_update :: "int \<Rightarrow> db \<Rightarrow> db" where
  "sweep_update now s =
     s\<lparr>borrow_records := map (\<lambda>b. if status b = Active \<and> due_at b < now
          then b\<lparr>status := Overdue\<rparr> else b) (borrow_records s)\<rparr>"

definition sweep_changes :: "int \<Rightarrow> db \<Rightarrow> nat" where
  "sweep_changes now s = length (filter (\<lambda>b. status b = Active \<and> due_at b < now) (borrow_records s))"

definition getOverdueBorrows ::
  "int \<Rightarrow> db \<Rightarrow> (borrow_record \<times> string \<times> string \<times> string) list response \<times> db" where
  "getOverdueBorrows now_ms s =
     (let s' = sweep_update (now_ms div 1000) s;
          results = sort_key (\<lambda>(b, n). due_at b)
            [(b, i_name i, u_name u, u_email u).
               b \<leftarrow> borrow_records s', i \<leftarrow> items s', u \<leftarrow> users s',
               item_id b = i_id i, user_id b = u_id u, status b = Overdue]
      in (Json results 200, s'))"

section \<open>The invariants of the data model\<close>

definition holds_item :: "int \<Rightarrow> borrow_record \<Rightarrow> bool" where
  "holds_item i b \<longleftrightarrow> item_id b = i \<and> (status b = Active \<or> status b = Overdue)"

definition holder_count :: "db \<Rightarrow> int \<Rightarrow> nat" where
  "holder_count s i = length (filter (holds_item i) (borrow_records s))"

definition at_most_one_holder :: "db \<Rightarrow> bool" where
  "at_most_one_holder s \<longleftrightarrow> (\<forall>b \<in> set (borrow_records s). holder_count s (item_id b) \<le> 1)"

definition flag_consistent :: "db \<Rightarrow> bool" where
  "flag_consistent s \<longleftrightarrow>
     (\<forall>i \<in> set (items s). (available i = 0) = (\<exists>b \<in> set (borrow_records s). holds_item (i_id i) b))"

section \<open>Sequences of core operations\<close>

datatype request =
    Reserve borrow_env "int option" "borrow_body option"
  | Return int "int option" "return_body option"
  | Sweep int

fun exec :: "request \<Rightarrow> db \<Rightarrow> db" where
  "exec (Reserve env userId body) s = snd (createBorrow env userId body s)"
| "exec (Return now_ms ident body) s = snd (returnItem now_ms ident body s)"
| "exec (Sweep now_ms) s = snd (getOverdueBorrows now_ms s)"

definition run :: "request list \<Rightarrow> db \<Rightarrow> db" where
  "run rs s = fold exec rs s"

text \<open>
  The half of \<open>flag_consistent\<close> that the reserve path relies on: an item whose flag is
  set has no holder.
\<close>

definition flag_sound :: "db \<Rightarrow> bool" where
  "flag_sound s \<longleftrightarrow> (\<forall>i \<in> set (items s). available i \<noteq> 0 \<longrightarrow> holder_count s (i_id i) = 0)"

section \<open>The eligibility checks, one by one\<close>



definition plan_max_items :: "db \<Rightarrow> int \<Rightarrow> int" where
  "plan_max_items s uid =
     (case find (\<lambda>x. s_user_id x = uid) (subscriptions s) of None \<Rightarrow> 1 | Some x \<Rightarrow> max_items x)"



definition active_count :: "db \<Rightarrow> int \<Rightarrow> nat" where
  "active_count s uid = length (filter (\<lambda>b. user_id b = uid \<and> status b = Active) (borrow_records s))"



text \<open>The reservations that count as held by a user in the words of the specification.\<close>

definition held_count :: "db \<Rightarrow> int \<Rightarrow> nat" where
  "held_count s uid =
     length (filter (\<lambda>b. user_id b = uid \<and> (status b = Active \<or> status b = Overdue)) (borrow_records s))"

section \<open>Concurrent borrow requests\<close>

text \<open>
  \<open>createBorrow\<close> awaits the database between its statements, and the worker serves other
  requests meanwhile. A task is a borrow request between two awaits: before its checks,
  after them, after its INSERT, and finished. A schedule names the task that takes the
  next step. The model interleaves at three of the handler's awaits only, so each of its
  runs is a run of the handler.
\<close>

datatype task =
    Pending borrow_env "int option" "borrow_body option"
  | Checked borrow_env borrow_plan
  | Inserted borrow_plan int
  | Finished "borrow_created response"

fun task_step :: "task \<Rightarrow> db \<Rightarrow> task \<times> db" where
  "task_step (Pending env userId body) s =
     (case createBorrow_checks env userId body s of
        Inl (m, code) \<Rightarrow> (Finished (Error m code), s)
      | Inr p \<Rightarrow> (Checked env p, s))"
| "task_step (Checked env p) s =
     (let s1 = createBorrow_insert env p s in (Inserted p (borrow_seq s1), s1))"
| "task_step (Inserted p bid) s =
     (Finished (Json \<lparr>r_borrow_id = bid, r_qr_code = p_qr_code p,
                      r_due_at = p_due_at p, r_item_name = p_item_name p\<rparr> 201),
      createBorrow_mark p s)"
| "task_step (Finished r) s = (Finished r, s)"

definition step_task :: "nat \<Rightarrow> task list \<times> db \<Rightarrow> task list \<times> db" where
  "step_task k c =
     (case c of (ts, s) \<Rightarrow>
        if k < length ts then (case task_step (ts ! k) s of (t', s') \<Rightarrow> (ts[k := t'], s'))
        else (ts, s))"

definition schedule :: "nat list \<Rightarrow> task list \<times> db \<Rightarrow> task list \<times> db" where
  "schedule ks c = fold step_task ks c"

section \<open>Example data\<close>

definition drill :: item where
  "drill = \<lparr>i_id = 1, i_name = ''Drill'', risk_level = ''low'', min_level_required = 1, available = 1\<rparr>"

definition printer :: item where
  "printer = \<lparr>i_id = 2, i_name = ''Printer'', risk_level = ''high'', min_level_required = 4, available = 1\<rparr>"

definition kit :: item where
  "kit = \<lparr>i_id = 3, i_name = ''Kit'', risk_level = ''low'', min_level_required = 1, available = 1\<rparr>"

definition ann :: user where
  "ann = \<lparr>u_id = 1, u_name = ''Ann'', u_email = ''ann@example.org'', level = 2, trust_score = 199\<rparr>"

definition bob :: user where
  "bob = \<lparr>u_id = 2, u_name = ''Bob'', u_email = ''bob@example.org'', level = 1, trust_score = 5\<rparr>"

text \<open>Nothing is lent; nobody has a subscription row.\<close>

definition shop :: db where
  "shop = \<lparr>items = [drill, printer, kit], users = [ann, bob], subscriptions = [],
           borrow_records = [], borrow_seq = 0, kv_availability = []\<rparr>"

definition loan1 :: borrow_record where
  "loan1 = \<lparr>b_id = 1, user_id = 1, item_id = 1, borrowed_at = 100, due_at = 1000,
            returned_at = None, condition_notes = None, qr_code = ''LOT-0A1B2C3D'', status = Active\<rparr>"

definition loan2 :: borrow_record where
  "loan2 = \<lparr>b_id = 2, user_id = 2, item_id = 3, borrowed_at = 200, due_at = 2000,
            returned_at = None, condition_notes = None, qr_code = ''LOT-4E5F6A7B'', status = Active\<rparr>"

text \<open>Ann holds the drill and Bob the kit.\<close>

definition shop_lent :: db where
  "shop_lent = \<lparr>items = [drill\<lparr>available := 0\<rparr>, printer, kit\<lparr>available := 0\<rparr>],
                users = [ann, bob], subscriptions = [],
                borrow_records = [loan1, loan2], borrow_seq = 2, kv_availability = []\<rparr>"


text \<open>Ann's paid plan ran out at second 100.\<close>

definition shop_expired :: db where
  "shop_expired = shop\<lparr>subscriptions := [\<lparr>s_user_id = 1, plan = ''MAKER'', max_items = 3,
                     max_risk_level = ''medium'', expires_at = Some 100\<rparr>]\<rparr>"

definition week_env :: borrow_env where
  "week_env = \<lparr>clock_rules = 5000000, clock_now = 5000999, clock_db = 5001, uuid8 = ''9F8E7D6C''\<rparr>"

definition later_env :: borrow_env where
  "later_env = \<lparr>clock_rules = 5000100, clock_now = 5000100, clock_db = 5000, uuid8 = ''11223344''\<rparr>"

text \<open>A request made after the first loan of one day has fallen due.\<close>

definition next_env :: borrow_env where
  "next_env = \<lparr>clock_rules = 100000500, clock_now = 100000500, clock_db = 100000, uuid8 = ''55667788''\<rparr>"

definition want :: "int \<Rightarrow> int option \<Rightarrow> borrow_body" where
  "want iid d = \<lparr>body_item_id = Some iid, body_duration_days = d\<rparr>"

definition good_return :: return_body where
  "good_return = \<lparr>body_condition_notes = None, body_condition = None\<rparr>"

definition damaged_return :: return_body where
  "damaged_return = \<lparr>body_condition_notes = Some ''cracked case'', body_condition = Some ''damaged''\<rparr>"

section \<open>Facts about lists and lookups\<close>

lemma filter_le1_unique:
  "length (filter P xs) \<le> 1 \<Longrightarrow> x \<in> set xs \<Longrightarrow> P x \<Longrightarrow> y \<in> set xs \<Longrightarrow> P y \<Longrightarrow> x = y"
proof (induction xs)
  case Nil
  then show ?case by simp
next
  case (Cons a xs)
  show ?case
  proof (cases "P a")
    case True
    with Cons.prems(1) have "filter P xs = []" by simp
    then have none: "\<forall>z \<in> set xs. \<not> P z" by (simp add: filter_empty_conv)
    with Cons.prems True show ?thesis by auto
  next
    case False
    with Cons show ?thesis by auto
  qed
qed

section \<open>The at-most-one-holder invariant\<close>

lemma at_most_one_holder_iff: "at_most_one_holder s \<longleftrightarrow> (\<forall>i. holder_count s i \<le> 1)"
proof
  assume a: "at_most_one_holder s"
  show "\<forall>i. holder_count s i \<le> 1"
  proof
    fix i
    show "holder_count s i \<le> 1"
    proof (cases "\<exists>b \<in> set (borrow_records s). item_id b = i")
      case True
      with a show ?thesis by (auto simp: at_most_one_holder_def)
    next
      case False
      then have "filter (holds_item i) (borrow_records s) = []"
        by (auto simp: filter_empty_conv holds_item_def)
      then show ?thesis by (simp add: holder_count_def)
    qed
  qed
next
  assume "\<forall>i. holder_count s i \<le> 1"
  then show "at_most_one_holder s" by (simp add: at_most_one_holder_def)
qed

lemma flag_consistent_sound: "flag_consistent s \<Longrightarrow> flag_sound s"
  by (auto simp: flag_consistent_def flag_sound_def holder_count_def filter_empty_conv)

lemma holder_count_sweep: "holder_count (sweep_update now s) i = holder_count s i"
proof -
  have "filter (holds_item i) (map (\<lambda>b. if status b = Active \<and> due_at b < now
          then b\<lparr>status := Overdue\<rparr> else b) xs) =
        map (\<lambda>b. if status b = Active \<and> due_at b < now
          then b\<lparr>status := Overdue\<rparr> else b) (filter (holds_item i) xs)" for xs
    by (induction xs) (auto simp: holds_item_def)
  then show ?thesis by (simp add: holder_count_def sweep_update_def)
qed

lemma sweep_inv:
  assumes "at_most_one_holder s" "flag_sound s"
  shows "at_most_one_holder (snd (getOverdueBorrows now_ms s)) \<and> flag_sound (snd (getOverdueBorrows now_ms s))"
  using assms
  by (simp add: at_most_one_holder_iff flag_sound_def getOverdueBorrows_def Let_def holder_count_sweep)
    (simp add: sweep_update_def)

lemma find_SomeD: "find P xs = Some x \<Longrightarrow> x \<in> set xs \<and> P x"
  by (induction xs) (auto split: if_splits)

lemma status_not_Returned: "status b \<noteq> Returned \<Longrightarrow> status b = Active \<or> status b = Overdue"
  by (cases "status b") auto

lemma filter_map_le:
  assumes "\<And>x. x \<in> set xs \<Longrightarrow> P (g x) \<Longrightarrow> P x"
  shows "length (filter P (map g xs)) \<le> length (filter P xs)"
  using assms by (induction xs) (auto simp: le_SucI)

lemma returnItem_done:
  assumes "find (\<lambda>b. b_id b = bid) (borrow_records s) = Some borrow" "status borrow \<noteq> Returned"
  shows "borrow_records (snd (returnItem now_ms (Some bid) (Some bd) s)) =
           map (\<lambda>b. if b_id b = bid
            then b\<lparr>returned_at := Some (now_ms div 1000), status := Returned,
                   condition_notes := or_null (body_condition_notes bd)\<rparr> else b) (borrow_records s)"
    and "items (snd (returnItem now_ms (Some bid) (Some bd) s)) =
           map (\<lambda>i. if i_id i = item_id borrow then i\<lparr>available := 1\<rparr> else i) (items s)"
  using assms
  by (simp_all add: returnItem_def Let_def invalidateAvailabilityCache_def or_null_def)

lemma returnItem_refused:
  assumes "ident = None \<or> body = None \<or>
     (\<exists>bid. ident = Some bid \<and> (case find (\<lambda>b. b_id b = bid) (borrow_records s) of
         None \<Rightarrow> True | Some borrow \<Rightarrow> status borrow = Returned))"
  shows "snd (returnItem now_ms ident body s) = s"
  using assms
  by (auto simp: returnItem_def Let_def split: option.splits)

lemma return_success_inv:
  assumes amo: "at_most_one_holder s" and fs: "flag_sound s"
    and f: "find (\<lambda>b. b_id b = bid) (borrow_records s) = Some borrow"
    and nr: "status borrow \<noteq> Returned"
  shows "at_most_one_holder (snd (returnItem now_ms (Some bid) (Some bd) s)) \<and>
         flag_sound (snd (returnItem now_ms (Some bid) (Some bd) s))"
proof -
  let ?s' = "snd (returnItem now_ms (Some bid) (Some bd) s)"
  let ?g = "\<lambda>b. if b_id b = bid
            then b\<lparr>returned_at := Some (now_ms div 1000), status := Returned,
                   condition_notes := or_null (body_condition_notes bd)\<rparr> else b"
  note br = returnItem_done(1) [OF f nr, of now_ms bd]
  note it = returnItem_done(2) [OF f nr, of now_ms bd]
  have le: "holder_count ?s' i \<le> holder_count s i" for i
    unfolding holder_count_def br
    by (rule filter_map_le) (auto simp: holds_item_def split: if_splits)
  from f have bin: "borrow \<in> set (borrow_records s)" and bbid: "b_id borrow = bid"
    using find_SomeD by fastforce+
  from nr have bh: "holds_item (item_id borrow) borrow"
    using status_not_Returned by (auto simp: holds_item_def)
  from amo have c1: "holder_count s (item_id borrow) \<le> 1"
    by (simp add: at_most_one_holder_iff)
  have zero: "holder_count ?s' (item_id borrow) = 0"
  proof -
    have "\<not> holds_item (item_id borrow) (?g b)" if "b \<in> set (borrow_records s)" for b
    proof (cases "b_id b = bid")
      case True
      then show ?thesis by (simp add: holds_item_def)
    next
      case False
      show ?thesis
      proof
        assume "holds_item (item_id borrow) (?g b)"
        with False have "holds_item (item_id borrow) b" by simp
        with c1 bin bh that have "borrow = b"
          unfolding holder_count_def by (metis filter_le1_unique)
        with bbid False show False by simp
      qed
    qed
    then show ?thesis
      unfolding holder_count_def br by (auto simp: filter_empty_conv)
  qed
  have a': "at_most_one_holder ?s'"
    unfolding at_most_one_holder_iff
    using le amo by (meson at_most_one_holder_iff le_trans)
  have f': "flag_sound ?s'"
    unfolding flag_sound_def
  proof (intro ballI impI)
    fix i assume i: "i \<in> set (items ?s')" and av: "available i \<noteq> 0"
    show "holder_count ?s' (i_id i) = 0"
    proof (cases "i_id i = item_id borrow")
      case True
      with zero show ?thesis by simp
    next
      case False
      with i have "i \<in> set (items s)" unfolding it by (auto split: if_splits)
      with fs av have "holder_count s (i_id i) = 0" by (simp add: flag_sound_def)
      with le [of "i_id i"] show ?thesis by simp
    qed
  qed
  from a' f' show ?thesis by simp
qed

lemma return_inv:
  assumes amo: "at_most_one_holder s" and fs: "flag_sound s"
  shows "at_most_one_holder (snd (returnItem now_ms ident body s)) \<and>
         flag_sound (snd (returnItem now_ms ident body s))"
proof (cases "\<exists>bid bd borrow. ident = Some bid \<and> body = Some bd \<and>
    find (\<lambda>b. b_id b = bid) (borrow_records s) = Some borrow \<and> status borrow \<noteq> Returned")
  case True
  then show ?thesis using return_success_inv [OF amo fs] by blast
next
  case False
  then have "ident = None \<or> body = None \<or>
     (\<exists>bid. ident = Some bid \<and> (case find (\<lambda>b. b_id b = bid) (borrow_records s) of
         None \<Rightarrow> True | Some borrow \<Rightarrow> status borrow = Returned))"
    by (cases ident; cases body) (auto split: option.splits)
  from returnItem_refused [OF this] amo fs show ?thesis by simp
qed

lemma createBorrow_checks_InrD:
  assumes "createBorrow_checks env userId body s = Inr p"
  shows "\<exists>it. it \<in> set (items s) \<and> i_id it = p_item_id p \<and> available it \<noteq> 0"
proof -
  from assms have "\<exists>it. find (\<lambda>i. i_id i = p_item_id p) (items s) = Some it \<and> available it \<noteq> 0"
    by (auto simp: createBorrow_checks_def isItemAvailable_def Let_def
      split: option.splits if_splits eligibility.splits)
  then show ?thesis using find_SomeD by fastforce
qed

lemma create_inv:
  assumes amo: "at_most_one_holder s" and fs: "flag_sound s"
  shows "at_most_one_holder (snd (createBorrow env userId body s)) \<and>
         flag_sound (snd (createBorrow env userId body s))"
proof (cases "createBorrow_checks env userId body s")
  case (Inl e)
  with amo fs show ?thesis by (simp add: createBorrow_def split: prod.splits)
next
  case (Inr p)
  let ?s' = "snd (createBorrow env userId body s)"
  from createBorrow_checks_InrD [OF Inr] fs have z: "holder_count s (p_item_id p) = 0"
    by (auto simp: flag_sound_def)
  have br: "borrow_records ?s' = borrow_records s @
          [\<lparr>b_id = last_row_id s + 1, user_id = p_user_id p, item_id = p_item_id p,
            borrowed_at = clock_db env, due_at = p_due_at p, returned_at = None,
            condition_notes = None, qr_code = p_qr_code p, status = Active\<rparr>]"
    and it: "items ?s' = map (\<lambda>i. if i_id i = p_item_id p then i\<lparr>available := 0\<rparr> else i) (items s)"
    using Inr by (simp_all add: createBorrow_def createBorrow_insert_def createBorrow_mark_def
        invalidateAvailabilityCache_def Let_def)
  have hc: "holder_count ?s' i = holder_count s i + (if i = p_item_id p then 1 else 0)" for i
    unfolding holder_count_def br by (simp add: holds_item_def)
  have a': "at_most_one_holder ?s'"
    unfolding at_most_one_holder_iff
  proof
    fix i show "holder_count ?s' i \<le> 1"
      using hc [of i] z amo [unfolded at_most_one_holder_iff] by (auto split: if_splits)
  qed
  have f': "flag_sound ?s'"
    unfolding flag_sound_def
  proof (intro ballI impI)
    fix i assume i: "i \<in> set (items ?s')" and av: "available i \<noteq> 0"
    from i av it have "i \<in> set (items s) \<and> i_id i \<noteq> p_item_id p" by (auto split: if_splits)
    with fs av hc [of "i_id i"] show "holder_count ?s' (i_id i) = 0"
      by (simp add: flag_sound_def)
  qed
  from a' f' show ?thesis by simp
qed

lemma exec_inv: "at_most_one_holder s \<and> flag_sound s \<Longrightarrow> at_most_one_holder (exec r s) \<and> flag_sound (exec r s)"
  using create_inv return_inv sweep_inv by (cases r) auto

lemma run_inv: "at_most_one_holder s \<and> flag_sound s \<Longrightarrow> at_most_one_holder (run rs s) \<and> flag_sound (run rs s)"
  unfolding run_def
proof (induction rs arbitrary: s)
  case Nil
  then show ?case by simp
next
  case (Cons r rs)
  from exec_inv [OF Cons.prems] have "at_most_one_holder (exec r s) \<and> flag_sound (exec r s)" .
  from Cons.IH [OF this] show ?case by simp
qed

text \<open>
  Claim C1. Started in a state where every item has at most one reservation with status
  active or overdue and where an item's flag is cleared exactly when such a reservation
  exists, any sequence of borrow requests, returns and overdue sweeps, each run to its
  end before the next starts, leads to a state where every item again has at most one
  reservation with status active or overdue. A sequence of length one is the single
  operation.
\<close>

theorem at_most_one_holder_run:
  assumes "at_most_one_holder s" and "flag_consistent s"
  shows "\<forall>i. holder_count (run rs s) i \<le> 1"
  using run_inv [of s rs] assms flag_consistent_sound at_most_one_holder_iff by blast

theorem at_most_one_holder_run_witness:
  "at_most_one_holder shop_lent \<and> flag_consistent shop_lent \<and>
   (\<forall>i. holder_count
      (run [Sweep 1500000, Reserve week_env (Some 2) (Some (want 1 None)),
            Return 1600000 (Some 1) (Some good_return),
            Reserve later_env (Some 2) (Some (want 1 (Some 3)))] shop_lent) i \<le> 1)"
proof -
  have a: "at_most_one_holder shop_lent"
    by (simp add: at_most_one_holder_def holder_count_def holds_item_def shop_lent_def
        loan1_def loan2_def)
  have f: "flag_consistent shop_lent"
    by (simp add: flag_consistent_def holds_item_def shop_lent_def loan1_def loan2_def
        drill_def printer_def kit_def)
  from a f at_most_one_holder_run [OF a f] show ?thesis by blast
qed

section \<open>Concurrent borrow requests\<close>

lemma schedule_alone:
  "schedule [0, 0, 0] ([Pending env userId body], s) =
     (case createBorrow env userId body s of (r, s') \<Rightarrow> ([Finished r], s'))"
proof (cases "createBorrow_checks env userId body s")
  case (Inl e)
  then show ?thesis
    by (cases e) (simp add: schedule_def step_task_def createBorrow_def)
next
  case (Inr p)
  then show ?thesis
    by (simp add: schedule_def step_task_def createBorrow_def Let_def createBorrow_insert_def)
qed

text \<open>
  Claim C2 says that of the borrow requests for one item that run at the same time exactly
  one succeeds and the others receive 409. The handler has no transaction and no
  conditional update: when Ann's and Bob's requests both finish their checks before
  either reaches the INSERT, both are answered 201 and the drill has two active
  reservations.
\<close>

theorem concurrent_reserve_double_lending:
  "fst (schedule [0, 1, 0, 0, 1, 1]
        ([Pending week_env (Some 1) (Some (want 1 None)),
          Pending later_env (Some 2) (Some (want 1 None))], shop)) =
     [Finished (Json \<lparr>r_borrow_id = 1, r_qr_code = ''LOT-9F8E7D6C'', r_due_at = 609800,
                      r_item_name = ''Drill''\<rparr> 201),
      Finished (Json \<lparr>r_borrow_id = 2, r_qr_code = ''LOT-11223344'', r_due_at = 609800,
                      r_item_name = ''Drill''\<rparr> 201)] \<and>
   holder_count (snd (schedule [0, 1, 0, 0, 1, 1]
        ([Pending week_env (Some 1) (Some (want 1 None)),
          Pending later_env (Some 2) (Some (want 1 None))], shop))) 1 = 2"
  by code_simp

section \<open>Trust score\<close>

lemma updateTrustScore_users:
  "users (snd (updateTrustScore userId delta s)) =
     map (\<lambda>u. if u_id u = userId
            then u\<lparr>trust_score := max 0 (min 200 (trust_score u + delta))\<rparr> else u) (users s)"
proof -
  define s' where "s' = s\<lparr>users := map (\<lambda>u. if u_id u = userId
            then u\<lparr>trust_score := max 0 (min 200 (trust_score u + delta))\<rparr> else u) (users s)\<rparr>"
  have "snd (updateTrustScore userId delta s) = s'"
    unfolding updateTrustScore_def Let_def s'_def [symmetric]
    by (cases "find (\<lambda>u. u_id u = userId) (users s')") simp_all
  then show ?thesis by (simp add: s'_def)
qed

lemma updateTrustScore_target:
  assumes "u \<in> set (users (snd (updateTrustScore userId delta s)))" and "u_id u = userId"
  shows "0 \<le> trust_score u \<and> trust_score u \<le> 200"
proof -
  from assms(1) obtain v where v: "v \<in> set (users s)"
    and u: "u = (if u_id v = userId
            then v\<lparr>trust_score := max 0 (min 200 (trust_score v + delta))\<rparr> else v)"
    unfolding updateTrustScore_users by auto
  show ?thesis
  proof (cases "u_id v = userId")
    case True
    with u show ?thesis by simp
  next
    case False
    with u assms(2) show ?thesis by simp
  qed
qed

lemma updateTrustScore_clamped:
  assumes "\<forall>u \<in> set (users s). 0 \<le> trust_score u \<and> trust_score u \<le> 200"
    and "u \<in> set (users (snd (updateTrustScore userId delta s)))"
  shows "0 \<le> trust_score u \<and> trust_score u \<le> 200"
proof -
  from assms(2) obtain v where v: "v \<in> set (users s)"
    and u: "u = (if u_id v = userId
            then v\<lparr>trust_score := max 0 (min 200 (trust_score v + delta))\<rparr> else v)"
    unfolding updateTrustScore_users by auto
  from assms(1) v have "0 \<le> trust_score v \<and> trust_score v \<le> 200" by blast
  with u show ?thesis by (cases "u_id v = userId") simp_all
qed

text \<open>
  Claim C3 says that the trust score stays within 0 and 200 after every trust-modifying
  operation, \<open>returnItem\<close> included. \<open>updateTrustScore\<close> clamps, as the lemmas above
  show; \<open>returnItem\<close> does not: a good return takes Ann from 199 to 201, and a damaged
  return takes Bob from 5 to -5.
\<close>

theorem returnItem_trust_out_of_range:
  "map trust_score (users (snd (returnItem 1600000 (Some 1) (Some good_return) shop_lent))) = [201, 5] \<and>
   map trust_score (users (snd (returnItem 1600000 (Some 2) (Some damaged_return) shop_lent))) = [199, - 5]"
  by code_simp

section \<open>Availability\<close>





section \<open>Eligibility\<close>






section \<open>The plan limit\<close>

text \<open>
  The count that \<open>canUserBorrowItem\<close> compares with the plan's maximum is
  \<open>active_count\<close>; the sweep takes every record it turns overdue out of that count.
\<close>

lemma active_count_sweep:
  "active_count (sweep_update now s) uid =
     length (filter (\<lambda>b. user_id b = uid \<and> status b = Active \<and> \<not> due_at b < now) (borrow_records s))"
proof -
  have "length (filter (\<lambda>b. user_id b = uid \<and> status b = Active)
          (map (\<lambda>b. if status b = Active \<and> due_at b < now then b\<lparr>status := Overdue\<rparr> else b) xs)) =
        length (filter (\<lambda>b. user_id b = uid \<and> status b = Active \<and> \<not> due_at b < now) xs)" for xs
    by (induction xs) auto
  then show ?thesis by (simp add: active_count_def sweep_update_def)
qed

text \<open>
  Claim C6 says that the plan-limit check counts the user's reservations with status
  active or overdue, so that a reservation the sweep has turned overdue still counts. The
  code counts status active only. Ann, on the default plan of one item at a time,
  borrows the drill for a day. While the loan is active a request for the kit is refused
  with the plan limit. After the due time has passed and the sweep has run she still
  holds the drill, yet the same request is answered 201, and she holds two items.
\<close>

theorem plan_limit_two_items:
  "plan_max_items shop 1 = 1 \<and>
   fst (createBorrow next_env (Some 1) (Some (want 3 None))
          (run [Reserve week_env (Some 1) (Some (want 1 (Some 1)))] shop)) =
     Error (Maximum_items_allowed 1) 403 \<and>
   held_count (run [Reserve week_env (Some 1) (Some (want 1 (Some 1))), Sweep 100000000] shop) 1 = 1 \<and>
   fst (createBorrow next_env (Some 1) (Some (want 3 None))
          (run [Reserve week_env (Some 1) (Some (want 1 (Some 1))), Sweep 100000000] shop)) =
     Json \<lparr>r_borrow_id = 2, r_qr_code = ''LOT-55667788'', r_due_at = 704800,
           r_item_name = ''Kit''\<rparr> 201 \<and>
   held_count (run [Reserve week_env (Some 1) (Some (want 1 (Some 1))), Sweep 100000000,
                    Reserve next_env (Some 1) (Some (want 3 None))] shop) 1 = 2 \<and>
   map available (items (run [Reserve week_env (Some 1) (Some (want 1 (Some 1))), Sweep 100000000,
                    Reserve next_env (Some 1) (Some (want 3 None))] shop)) = [0, 1, 0]"
  by code_simp

section \<open>The overdue sweep\<close>

lemma sweep_update_idem: "sweep_update now (sweep_update now s) = sweep_update now s"
  by (simp add: sweep_update_def comp_def cong: map_cong)

lemma sweep_update_later:
  "now \<le> now' \<Longrightarrow> sweep_update now' (sweep_update now s) = sweep_update now' s"
  by (auto simp: sweep_update_def comp_def)

lemma sweep_changes_after: "sweep_changes now (sweep_update now s) = 0"
  by (auto simp: sweep_changes_def sweep_update_def filter_empty_conv)

text \<open>
  A sweep at a later clock reading absorbs an earlier one: what the second run changes
  are the active records that fell due between the two readings.
\<close>

lemma getOverdueBorrows_later:
  assumes "now_ms \<le> later_ms"
  shows "snd (getOverdueBorrows later_ms (snd (getOverdueBorrows now_ms s))) =
         snd (getOverdueBorrows later_ms s)"
proof -
  from assms have "now_ms div 1000 \<le> later_ms div 1000" by (rule zdiv_mono1) simp
  then show ?thesis
    by (simp add: getOverdueBorrows_def Let_def sweep_update_later)
qed

lemma map_fixed_iff: "map f xs = xs \<longleftrightarrow> (\<forall>x \<in> set xs. f x = x)"
  by (induction xs) simp_all

lemma sweep_changes_rerun:
  "sweep_changes later (sweep_update now s) =
     length (filter (\<lambda>b. status b = Active \<and> now \<le> due_at b \<and> due_at b < later) (borrow_records s))"
proof -
  have "length (filter (\<lambda>b. status b = Active \<and> due_at b < later)
          (map (\<lambda>b. if status b = Active \<and> due_at b < now then b\<lparr>status := Overdue\<rparr> else b) xs)) =
        length (filter (\<lambda>b. status b = Active \<and> now \<le> due_at b \<and> due_at b < later) xs)" for xs
  proof (induction xs)
    case Nil
    show ?case by simp
  next
    case (Cons b xs)
    show ?case
    proof (cases "status b = Active \<and> due_at b < now")
      case True
      with Cons show ?thesis by simp
    next
      case False
      then have "status b = Active \<Longrightarrow> now \<le> due_at b" by simp
      with False Cons show ?thesis by (cases "status b = Active") simp_all
    qed
  qed
  then show ?thesis by (simp add: sweep_changes_def sweep_update_def)
qed

lemma sweep_update_fixed: "sweep_update now t = t \<longleftrightarrow> sweep_changes now t = 0"
proof -
  let ?g = "\<lambda>b. if status b = Active \<and> due_at b < now then b\<lparr>status := Overdue\<rparr> else b"
  have g: "?g b = b \<longleftrightarrow> \<not> (status b = Active \<and> due_at b < now)" for b :: borrow_record
  proof (cases "status b = Active \<and> due_at b < now")
    case True
    have "b\<lparr>status := Overdue\<rparr> \<noteq> b"
    proof
      assume "b\<lparr>status := Overdue\<rparr> = b"
      then have "status (b\<lparr>status := Overdue\<rparr>) = status b" by simp
      with True show False by simp
    qed
    with True show ?thesis by simp
  next
    case False
    then show ?thesis by simp
  qed
  have "sweep_update now t = t \<longleftrightarrow> map ?g (borrow_records t) = borrow_records t"
  proof
    assume "sweep_update now t = t"
    then have "borrow_records (sweep_update now t) = borrow_records t" by simp
    then show "map ?g (borrow_records t) = borrow_records t" by (simp add: sweep_update_def)
  next
    assume "map ?g (borrow_records t) = borrow_records t"
    then show "sweep_update now t = t" by (simp add: sweep_update_def)
  qed
  also have "\<dots> \<longleftrightarrow> (\<forall>b \<in> set (borrow_records t). ?g b = b)"
    by (rule map_fixed_iff)
  also have "\<dots> \<longleftrightarrow> (\<forall>b \<in> set (borrow_records t). \<not> (status b = Active \<and> due_at b < now))"
    using g by blast
  also have "\<dots> \<longleftrightarrow> sweep_changes now t = 0"
    by (simp add: sweep_changes_def filter_empty_conv)
  finally show ?thesis .
qed

text \<open>
  The handler reads the clock on every call. A first sweep in second 2000 leaves Bob's
  loan, due at second 2000, active; a second sweep one millisecond later, in second
  2001, with nothing done in between, turns it overdue.
\<close>

theorem sweep_overdue_later_counterexample:
  "at_most_one_holder shop_lent \<and> flag_consistent shop_lent \<and>
   map status (borrow_records (snd (getOverdueBorrows 2000999 shop_lent))) = [Overdue, Active] \<and>
   map status (borrow_records (snd (getOverdueBorrows 2001000 (snd (getOverdueBorrows 2000999 shop_lent))))) =
     [Overdue, Overdue] \<and>
   sweep_changes (2001000 div 1000) (snd (getOverdueBorrows 2000999 shop_lent)) = 1"
  by code_simp

text \<open>
  Claim C7, as amended. The sweep changes nothing but the borrow records; it turns exactly
  the records with status active and a due time before the clock reading of the run into
  overdue and leaves every other record, the overdue and returned ones among them, as it
  is. A second sweep at the same clock reading leaves the state as the first left it and
  finds no row to change. A second sweep at another reading, with nothing done in
  between, changes as many rows as there are active records whose due time is at or
  after the first reading and before the second, and leaves the state as the first left
  it exactly when there is no such record.
\<close>

theorem sweep_overdue_rerun:
  "snd (getOverdueBorrows now_ms s) =
     s\<lparr>borrow_records := borrow_records (snd (getOverdueBorrows now_ms s))\<rparr> \<and>
   length (borrow_records (snd (getOverdueBorrows now_ms s))) = length (borrow_records s) \<and>
   (\<forall>k < length (borrow_records s).
      borrow_records (snd (getOverdueBorrows now_ms s)) ! k =
        (if status (borrow_records s ! k) = Active \<and> due_at (borrow_records s ! k) < now_ms div 1000
         then (borrow_records s ! k)\<lparr>status := Overdue\<rparr> else borrow_records s ! k)) \<and>
   snd (getOverdueBorrows now_ms (snd (getOverdueBorrows now_ms s))) = snd (getOverdueBorrows now_ms s) \<and>
   sweep_changes (now_ms div 1000) (snd (getOverdueBorrows now_ms s)) = 0 \<and>
   sweep_changes (later_ms div 1000) (snd (getOverdueBorrows now_ms s)) =
     length (filter (\<lambda>b. status b = Active \<and> now_ms div 1000 \<le> due_at b \<and> due_at b < later_ms div 1000)
       (borrow_records s)) \<and>
   (snd (getOverdueBorrows later_ms (snd (getOverdueBorrows now_ms s))) = snd (getOverdueBorrows now_ms s) \<longleftrightarrow>
      (\<forall>b \<in> set (borrow_records s).
         status b = Active \<longrightarrow> \<not> (now_ms div 1000 \<le> due_at b \<and> due_at b < later_ms div 1000)))"
proof -
  have s: "snd (getOverdueBorrows ms t) = sweep_update (ms div 1000) t" for ms t
    by (simp add: getOverdueBorrows_def Let_def)
  have first: "sweep_update (now_ms div 1000) s =
     s\<lparr>borrow_records := borrow_records (sweep_update (now_ms div 1000) s)\<rparr> \<and>
   length (borrow_records (sweep_update (now_ms div 1000) s)) = length (borrow_records s) \<and>
   (\<forall>k < length (borrow_records s).
      borrow_records (sweep_update (now_ms div 1000) s) ! k =
        (if status (borrow_records s ! k) = Active \<and> due_at (borrow_records s ! k) < now_ms div 1000
         then (borrow_records s ! k)\<lparr>status := Overdue\<rparr> else borrow_records s ! k))"
    by (simp add: sweep_update_def)
  have count: "sweep_changes (later_ms div 1000) (sweep_update (now_ms div 1000) s) =
     length (filter (\<lambda>b. status b = Active \<and> now_ms div 1000 \<le> due_at b \<and> due_at b < later_ms div 1000)
       (borrow_records s))"
    by (rule sweep_changes_rerun)
  have "sweep_update (later_ms div 1000) (sweep_update (now_ms div 1000) s) = sweep_update (now_ms div 1000) s \<longleftrightarrow>
      sweep_changes (later_ms div 1000) (sweep_update (now_ms div 1000) s) = 0"
    by (rule sweep_update_fixed)
  also have "\<dots> \<longleftrightarrow> (\<forall>b \<in> set (borrow_records s).
         status b = Active \<longrightarrow> \<not> (now_ms div 1000 \<le> due_at b \<and> due_at b < later_ms div 1000))"
    unfolding count by (auto simp: filter_empty_conv)
  finally have same: "sweep_update (later_ms div 1000) (sweep_update (now_ms div 1000) s) = sweep_update (now_ms div 1000) s \<longleftrightarrow>
      (\<forall>b \<in> set (borrow_records s).
         status b = Active \<longrightarrow> \<not> (now_ms div 1000 \<le> due_at b \<and> due_at b < later_ms div 1000))" .
  have idem: "sweep_update (now_ms div 1000) (sweep_update (now_ms div 1000) s) =
      sweep_update (now_ms div 1000) s"
    by (rule sweep_update_idem)
  have zero: "sweep_changes (now_ms div 1000) (sweep_update (now_ms div 1000) s) = 0"
    by (rule sweep_changes_after)
  from first idem zero count same show ?thesis
    unfolding s by blast
qed

theorem sweep_overdue_rerun_witness:
  "borrow_records (snd (getOverdueBorrows 1500000 shop_lent)) ! 0 = loan1\<lparr>status := Overdue\<rparr> \<and>
   borrow_records (snd (getOverdueBorrows 1500000 shop_lent)) ! 1 = loan2 \<and>
   snd (getOverdueBorrows 1500000 (snd (getOverdueBorrows 1500000 shop_lent))) =
     snd (getOverdueBorrows 1500000 shop_lent) \<and>
   sweep_changes 1500 shop_lent = 1 \<and>
   sweep_changes 1500 (snd (getOverdueBorrows 1500000 shop_lent)) = 0 \<and>
   snd (getOverdueBorrows 1600000 (snd (getOverdueBorrows 1500000 shop_lent))) =
     snd (getOverdueBorrows 1500000 shop_lent) \<and>
   snd (getOverdueBorrows 2001000 (snd (getOverdueBorrows 1500000 shop_lent))) \<noteq>
     snd (getOverdueBorrows 1500000 shop_lent) \<and>
   sweep_changes 2001 (snd (getOverdueBorrows 1500000 shop_lent)) = 1"
proof -
  note t = sweep_overdue_rerun [of 1500000 shop_lent 1600000]
  note u = sweep_overdue_rerun [of 1500000 shop_lent 2001000]
  have l: "length (borrow_records shop_lent) = 2" "borrow_records shop_lent ! 0 = loan1"
    "borrow_records shop_lent ! 1 = loan2" by (simp_all add: shop_lent_def)
  have a: "status loan1 = Active \<and> due_at loan1 < 1500000 div 1000"
    "\<not> (status loan2 = Active \<and> due_at loan2 < 1500000 div 1000)"
    by (simp_all add: loan1_def loan2_def)
  have c: "sweep_changes 1500 shop_lent = 1" by code_simp
  have d: "(1500000::int) div 1000 = 1500" "(2001000::int) div 1000 = 2001" by simp_all
  have none: "\<forall>b \<in> set (borrow_records shop_lent).
         status b = Active \<longrightarrow> \<not> (1500000 div 1000 \<le> due_at b \<and> due_at b < 1600000 div 1000)"
    by code_simp
  have some: "\<not> (\<forall>b \<in> set (borrow_records shop_lent).
         status b = Active \<longrightarrow> \<not> (1500000 div 1000 \<le> due_at b \<and> due_at b < 2001000 div 1000))"
    by code_simp
  have n1: "length (filter (\<lambda>b. status b = Active \<and> 1500000 div 1000 \<le> due_at b \<and> due_at b < 2001000 div 1000)
       (borrow_records shop_lent)) = 1"
    by code_simp
  from t have k: "\<forall>k < length (borrow_records shop_lent).
      borrow_records (snd (getOverdueBorrows 1500000 shop_lent)) ! k =
        (if status (borrow_records shop_lent ! k) = Active \<and> due_at (borrow_records shop_lent ! k) < 1500000 div 1000
         then (borrow_records shop_lent ! k)\<lparr>status := Overdue\<rparr> else borrow_records shop_lent ! k)"
    by blast
  from k [rule_format, of 0] l a have 0: "borrow_records (snd (getOverdueBorrows 1500000 shop_lent)) ! 0 = loan1\<lparr>status := Overdue\<rparr>"
    by simp
  from k [rule_format, of 1] l a have 1: "borrow_records (snd (getOverdueBorrows 1500000 shop_lent)) ! 1 = loan2"
    by simp
  from t have i: "snd (getOverdueBorrows 1500000 (snd (getOverdueBorrows 1500000 shop_lent))) =
     snd (getOverdueBorrows 1500000 shop_lent)" by blast
  from t have "sweep_changes (1500000 div 1000) (snd (getOverdueBorrows 1500000 shop_lent)) = 0" by blast
  then have z: "sweep_changes 1500 (snd (getOverdueBorrows 1500000 shop_lent)) = 0"
    unfolding d .
  from t none have same: "snd (getOverdueBorrows 1600000 (snd (getOverdueBorrows 1500000 shop_lent))) =
     snd (getOverdueBorrows 1500000 shop_lent)" by blast
  from u some have diff: "snd (getOverdueBorrows 2001000 (snd (getOverdueBorrows 1500000 shop_lent))) \<noteq>
     snd (getOverdueBorrows 1500000 shop_lent)" by blast
  from u have "sweep_changes (2001000 div 1000) (snd (getOverdueBorrows 1500000 shop_lent)) =
     length (filter (\<lambda>b. status b = Active \<and> 1500000 div 1000 \<le> due_at b \<and> due_at b < 2001000 div 1000)
       (borrow_records shop_lent))" by blast
  with n1 have m: "sweep_changes 2001 (snd (getOverdueBorrows 1500000 shop_lent)) = 1"
    unfolding d by simp
  from 0 1 i c z same diff m show ?thesis by blast
qed

section \<open>Denied requests\<close>

text \<open>
  Claim C8. Whenever \<open>createBorrow\<close> answers with an error (item not found, item not
  available, level too low, a subscription rule, or a validation error), the state after
  the call is the state before it: no borrow record is added and no item flag changes.
\<close>

theorem createBorrow_denied_atomic:
  "createBorrow env userId body s = (Error m code, s') \<Longrightarrow>
     s' = s \<and> borrow_records s' = borrow_records s \<and> items s' = items s"
  by (auto simp: createBorrow_def Let_def split: sum.splits prod.splits)

theorem createBorrow_denied_atomic_witness:
  "createBorrow week_env (Some 2) (Some (want 2 None)) shop_lent =
     (Error (Item_requires_level 4 1) 403, snd (createBorrow week_env (Some 2) (Some (want 2 None)) shop_lent)) \<and>
   snd (createBorrow week_env (Some 2) (Some (want 2 None)) shop_lent) = shop_lent"
proof -
  have f: "fst (createBorrow week_env (Some 2) (Some (want 2 None)) shop_lent) =
    Error (Item_requires_level 4 1) 403" by code_simp
  then have e: "createBorrow week_env (Some 2) (Some (want 2 None)) shop_lent =
     (Error (Item_requires_level 4 1) 403, snd (createBorrow week_env (Some 2) (Some (want 2 None)) shop_lent))"
    by (metis prod.collapse)
  from createBorrow_denied_atomic [OF e] e show ?thesis by blast
qed

section \<open>Duration and due time\<close>

text \<open>
  The due time is computed from the worker's clock before the INSERT, and \<open>borrowed_at\<close>
  is the database's clock at the INSERT. When the second changes in between, the two
  differ by less than seven days.
\<close>

theorem due_time_counterexample:
  "fst (createBorrow week_env (Some 1) (Some (want 1 (Some 7))) shop) =
     Json \<lparr>r_borrow_id = 1, r_qr_code = ''LOT-9F8E7D6C'', r_due_at = 609800, r_item_name = ''Drill''\<rparr> 201 \<and>
   due_at (last (borrow_records (snd (createBorrow week_env (Some 1) (Some (want 1 (Some 7))) shop)))) = 609800 \<and>
   borrowed_at (last (borrow_records (snd (createBorrow week_env (Some 1) (Some (want 1 (Some 7))) shop)))) = 5001 \<and>
   (609800::int) \<noteq> 5001 + 7 * 86400"
  by code_simp

lemma createBorrow_checks_duration:
  assumes "createBorrow_checks env userId body s = Inr p"
  shows "\<exists>bd d. body = Some bd \<and> d = (case body_duration_days bd of None \<Rightarrow> 7 | Some x \<Rightarrow> x) \<and>
           1 \<le> d \<and> d \<le> 30 \<and> p_due_at p = clock_now env div 1000 + d * 86400"
  using assms
  by (auto simp: createBorrow_checks_def Let_def
      split: option.splits if_splits eligibility.splits)

text \<open>
  Claim C9, as amended. A request of a logged-in user with a duration below 1 or above 30
  is answered 400 and changes nothing. A successful request adds one active record whose
  due time, also returned in the answer, is the worker's clock reading in whole seconds
  plus the duration times 86400 (7 days when the body names none); \<open>borrowed_at\<close> is the
  database's clock reading, and the due time is \<open>borrowed_at\<close> plus the duration when the
  two readings agree.
\<close>

theorem createBorrow_duration:
  "(uid \<noteq> 0 \<and> body_duration_days bd = Some d \<and> (d < 1 \<or> 30 < d) \<longrightarrow>
      (\<exists>m. createBorrow env (Some uid) (Some bd) s = (Error m 400, s))) \<and>
   (createBorrow env userId body s = (Json r code, s') \<longrightarrow>
      (\<exists>bd d b. body = Some bd \<and> d = (case body_duration_days bd of None \<Rightarrow> 7 | Some x \<Rightarrow> x) \<and>
         1 \<le> d \<and> d \<le> 30 \<and>
         borrow_records s' = borrow_records s @ [b] \<and> status b = Active \<and>
         due_at b = clock_now env div 1000 + d * 86400 \<and> r_due_at r = due_at b \<and>
         borrowed_at b = clock_db env \<and>
         (clock_db env = clock_now env div 1000 \<longrightarrow> due_at b = borrowed_at b + d * 86400)))"
proof -
  have 1: "\<exists>m. createBorrow env (Some uid) (Some bd) s = (Error m 400, s)"
    if "uid \<noteq> 0" "body_duration_days bd = Some d" "d < 1 \<or> 30 < d"
    using that by (auto simp: createBorrow_def createBorrow_checks_def split: option.splits)
  have 2: "\<exists>bd d b. body = Some bd \<and> d = (case body_duration_days bd of None \<Rightarrow> 7 | Some x \<Rightarrow> x) \<and>
         1 \<le> d \<and> d \<le> 30 \<and>
         borrow_records s' = borrow_records s @ [b] \<and> status b = Active \<and>
         due_at b = clock_now env div 1000 + d * 86400 \<and> r_due_at r = due_at b \<and>
         borrowed_at b = clock_db env \<and>
         (clock_db env = clock_now env div 1000 \<longrightarrow> due_at b = borrowed_at b + d * 86400)"
    if c: "createBorrow env userId body s = (Json r code, s')"
  proof (cases "createBorrow_checks env userId body s")
    case (Inl e)
    with c show ?thesis by (cases e) (simp add: createBorrow_def)
  next
    case (Inr p)
    from createBorrow_checks_duration [OF Inr] obtain bd d where
      bd: "body = Some bd" "d = (case body_duration_days bd of None \<Rightarrow> 7 | Some x \<Rightarrow> x)"
        "1 \<le> d" "d \<le> 30" "p_due_at p = clock_now env div 1000 + d * 86400"
      by blast
    let ?b = "\<lparr>b_id = last_row_id s + 1, user_id = p_user_id p, item_id = p_item_id p,
            borrowed_at = clock_db env, due_at = p_due_at p, returned_at = None,
            condition_notes = None, qr_code = p_qr_code p, status = Active\<rparr>"
    from c Inr have "borrow_records s' = borrow_records s @ [?b]" and "r_due_at r = p_due_at p"
      by (auto simp: createBorrow_def createBorrow_insert_def createBorrow_mark_def
          invalidateAvailabilityCache_def Let_def)
    with bd show ?thesis
      by (intro exI [of _ bd] exI [of _ d] exI [of _ ?b]) simp
  qed
  from 1 2 show ?thesis by blast
qed

theorem createBorrow_duration_witness:
  "(\<exists>m. createBorrow week_env (Some 1) (Some (want 1 (Some 31))) shop = (Error m 400, shop)) \<and>
   (\<exists>m. createBorrow week_env (Some 1) (Some (want 1 (Some 0))) shop = (Error m 400, shop)) \<and>
   (\<exists>r s' b. createBorrow later_env (Some 1) (Some (want 1 (Some 7))) shop = (Json r 201, s') \<and>
      borrow_records s' = borrow_records shop @ [b] \<and>
      due_at b = 5000 + 7 * 86400 \<and> borrowed_at b = 5000 \<and> due_at b = borrowed_at b + 7 * 86400)"
proof -
  have b: "body_duration_days (want 1 (Some 31)) = Some 31" "body_duration_days (want 1 (Some 0)) = Some 0"
    "body_duration_days (want 1 (Some 7)) = Some 7"
    by (simp_all add: want_def)
  note t1 = createBorrow_duration [of 1 "want 1 (Some 31)" 31 week_env shop, THEN conjunct1, rule_format]
  note t2 = createBorrow_duration [of 1 "want 1 (Some 0)" 0 week_env shop, THEN conjunct1, rule_format]
  from t1 b have 1: "\<exists>m. createBorrow week_env (Some 1) (Some (want 1 (Some 31))) shop = (Error m 400, shop)"
    by simp
  from t2 b have 2: "\<exists>m. createBorrow week_env (Some 1) (Some (want 1 (Some 0))) shop = (Error m 400, shop)"
    by simp
  obtain r s' where c: "createBorrow later_env (Some 1) (Some (want 1 (Some 7))) shop = (Json r 201, s')"
  proof -
    have "fst (createBorrow later_env (Some 1) (Some (want 1 (Some 7))) shop) =
      Json \<lparr>r_borrow_id = 1, r_qr_code = ''LOT-11223344'', r_due_at = 609800,
            r_item_name = ''Drill''\<rparr> 201"
      by code_simp
    then show ?thesis using that by (metis prod.collapse)
  qed
  have e: "clock_db later_env = clock_now later_env div 1000" "clock_db later_env = 5000"
    by (simp_all add: later_env_def)
  from createBorrow_duration [of _ _ _ later_env shop "Some 1" "Some (want 1 (Some 7))" r 201 s',
      THEN conjunct2, rule_format, OF c]
  obtain bd d b where
    x: "Some (want 1 (Some 7)) = Some bd" "d = (case body_duration_days bd of None \<Rightarrow> 7 | Some x \<Rightarrow> x)"
      "borrow_records s' = borrow_records shop @ [b]" "due_at b = clock_now later_env div 1000 + d * 86400"
      "borrowed_at b = clock_db later_env"
    by blast
  from x(1,2) b(3) have "d = 7" by auto
  with x e have "borrow_records s' = borrow_records shop @ [b] \<and>
      due_at b = 5000 + 7 * 86400 \<and> borrowed_at b = 5000 \<and> due_at b = borrowed_at b + 7 * 86400"
    by simp
  with c 1 2 show ?thesis by blast
qed

section \<open>Users without a subscription row\<close>

text \<open>
  Claim C10. For a user without a subscription row \<open>canUserBorrowItem\<close> applies the
  defaults of the BASIC plan: one active reservation at most, risk level low at most, no
  expiry; with no active reservation a low-risk item is allowed. The answer
  \<open>Subscription expired\<close> is given only to a user whose subscription row has an
  \<open>expires_at\<close> in the past.
\<close>

theorem basic_defaults:
  "(find (\<lambda>x. s_user_id x = uid) (subscriptions s) = None \<longrightarrow>
      canUserBorrowItem s now_ms uid r =
        (if 1 \<le> active_count s uid then Denied (Maximum_items_allowed 1)
         else if indexOf riskLevels r > indexOf riskLevels ''low'' then Denied (Plan_does_not_allow ''low'' r)
         else Allowed) \<and>
      (active_count s uid = 0 \<longrightarrow> canUserBorrowItem s now_ms uid ''low'' = Allowed)) \<and>
   (canUserBorrowItem s now_ms uid r = Denied Subscription_expired \<longrightarrow>
      (\<exists>x e. find (\<lambda>x. s_user_id x = uid) (subscriptions s) = Some x \<and>
             expires_at x = Some e \<and> e * 1000 < now_ms))"
proof -
  have 1: "canUserBorrowItem s now_ms uid r =
        (if 1 \<le> active_count s uid then Denied (Maximum_items_allowed 1)
         else if indexOf riskLevels r > indexOf riskLevels ''low'' then Denied (Plan_does_not_allow ''low'' r)
         else Allowed)"
    if "find (\<lambda>x. s_user_id x = uid) (subscriptions s) = None" for r
    using that by (simp add: canUserBorrowItem_def active_count_def Let_def)
  have 2: "canUserBorrowItem s now_ms uid ''low'' = Allowed"
    if "find (\<lambda>x. s_user_id x = uid) (subscriptions s) = None" "active_count s uid = 0"
    using 1 [OF that(1), of "''low''"] that(2) by (simp add: riskLevels_def)
  have 3: "\<exists>x e. find (\<lambda>x. s_user_id x = uid) (subscriptions s) = Some x \<and>
             expires_at x = Some e \<and> e * 1000 < now_ms"
    if "canUserBorrowItem s now_ms uid r = Denied Subscription_expired"
    using that
    by (auto simp: canUserBorrowItem_def Let_def split: option.splits if_splits)
  from 1 2 3 show ?thesis by blast
qed

theorem basic_defaults_witness:
  "find (\<lambda>x. s_user_id x = 2) (subscriptions shop_lent) = None \<and>
   canUserBorrowItem shop 1500000 2 ''low'' = Allowed \<and>
   canUserBorrowItem shop_lent 1500000 2 ''low'' = Denied (Maximum_items_allowed 1) \<and>
   canUserBorrowItem shop 1500000 2 ''medium'' = Denied (Plan_does_not_allow ''low'' ''medium'') \<and>
   canUserBorrowItem shop_expired 1500000 1 ''low'' = Denied Subscription_expired \<and>
   (\<exists>x e. find (\<lambda>x. s_user_id x = 1) (subscriptions shop_expired) = Some x \<and>
          expires_at x = Some e \<and> e * 1000 < 1500000)"
proof -
  have n: "find (\<lambda>x. s_user_id x = 2) (subscriptions shop_lent) = None"
    "find (\<lambda>x. s_user_id x = 2) (subscriptions shop) = None"
    by (simp_all add: shop_lent_def shop_def)
  have c: "active_count shop 2 = 0" by code_simp
  have d: "canUserBorrowItem shop_lent 1500000 2 ''low'' = Denied (Maximum_items_allowed 1)"
    "canUserBorrowItem shop 1500000 2 ''medium'' = Denied (Plan_does_not_allow ''low'' ''medium'')"
    "canUserBorrowItem shop_expired 1500000 1 ''low'' = Denied Subscription_expired"
    by code_simp+
  from basic_defaults [of 2 shop 1500000 "''low''", THEN conjunct1, rule_format, OF n(2)] c
  have a: "canUserBorrowItem shop 1500000 2 ''low'' = Allowed" by blast
  from basic_defaults [of 1 shop_expired 1500000 "''low''", THEN conjunct2, rule_format, OF d(3)]
  have e: "\<exists>x e. find (\<lambda>x. s_user_id x = 1) (subscriptions shop_expired) = Some x \<and>
          expires_at x = Some e \<and> e * 1000 < 1500000" .
  from n a d e show ?thesis by blast
qed

end
